theory Spec2Isabelle
  imports Main "HOL-Library.AList" "HOL-Library.Multiset"
begin

section \<open>JavaScript values and the Immutable collections the reducer uses\<close>

text \<open>
  The tab reducer of \<^verbatim>\<open>src/ui/browser/reducers/main-reducers.js\<close> works on
  Immutable.js collections. A slot of the \<open>pages\<close> list can hold a \<open>Page\<close> record, but
  also a plain \<open>Immutable.Map\<close> or \<open>undefined\<close>: \<open>setIn\<close> on an index outside the list
  creates both. A page's \<open>location\<close> can hold any value, a \<open>Page\<close> included
  (\<open>duplicateTab\<close> stores one there). So the values are a datatype of their own.

  A \<open>Page\<close> record and a \<open>Map\<close> are represented by the entries that were assigned to
  them, as association lists; a record field that was never assigned reads as the default
  that \<open>model.js\<close> declares for it.
\<close>

datatype val =
    VUndefined
  | VNull
  | VBool bool
  | VNum int
  | VStr string
  | VPage "(string \<times> val) list"
  | VMap "(string \<times> val) list"

text \<open>
  The errors: those that Immutable raises on the paths the reducer takes (an invalid key
  path, a key that a record does not declare, an index outside the range of a list), and
  the \<open>TypeError\<close> of a method call on \<open>undefined\<close>.
\<close>

datatype error =
    InvalidKeyPath
  | UnknownKey string
  | RangeError
  | TypeError

text \<open>
  \<open>wrapIndex\<close> of Immutable: a negative index counts from the end of the list.
\<close>

definition wrapIndex :: "'a list \<Rightarrow> int \<Rightarrow> int" where
  "wrapIndex xs i = (if i < 0 then int (length xs) + i else i)"

definition List_has :: "'a list \<Rightarrow> int \<Rightarrow> bool" where
  "List_has xs i = (0 \<le> wrapIndex xs i \<and> wrapIndex xs i < int (length xs))"

text \<open>\<open>list.get(i, NOT_SET)\<close>: \<open>None\<close> stands for the not-set value.\<close>

definition List_get :: "'a list \<Rightarrow> int \<Rightarrow> 'a option" where
  "List_get xs i = (if List_has xs i then Some (xs ! nat (wrapIndex xs i)) else None)"

text \<open>\<open>list.delete(i)\<close>: the list itself when it has no such index.\<close>

definition List_delete :: "'a list \<Rightarrow> int \<Rightarrow> 'a list" where
  "List_delete xs i =
     (if List_has xs i
      then take (nat (wrapIndex xs i)) xs @ drop (Suc (nat (wrapIndex xs i))) xs
      else xs)"

definition List_push :: "'a list \<Rightarrow> 'a \<Rightarrow> 'a list" where
  "List_push xs x = xs @ [x]"

text \<open>\<open>list.indexOf(x)\<close>: the first position of \<open>x\<close>, or \<open>-1\<close>.\<close>

fun List_indexOf :: "int list \<Rightarrow> int \<Rightarrow> int" where
  "List_indexOf [] x = -1"
| "List_indexOf (y # ys) x =
     (if y = x then 0
      else (let r = List_indexOf ys x in if r < 0 then -1 else r + 1))"

text \<open>
  Immutable computes the bounds of a list in 32-bit integers, and a write that extends a
  list beyond what they hold does not return a list: at index \<open>2147483647\<close> it raises a
  \<open>RangeError\<close>. The model follows \<open>list.set\<close> for the writes that leave the list with at
  most \<open>List_limit\<close> slots, far inside that range, and gives the error for every write
  that would need more; what is proved below about a write that extends a list is stated
  for indices within the limit.
\<close>

definition List_limit :: int where
  "List_limit = 2 ^ 24"

text \<open>
  \<open>list.set(i, v)\<close>: an index past the end extends the list with \<open>undefined\<close> slots, an
  index before the start (after wrapping) extends it at the front and writes slot 0.
\<close>

definition List_set :: "val list \<Rightarrow> int \<Rightarrow> val \<Rightarrow> error + val list" where
  "List_set xs i v =
     (let j = wrapIndex xs i in
      if j < 0
      then (if int (length xs) - j \<le> List_limit
            then Inr (v # replicate (nat (- j) - 1) VUndefined @ xs)
            else Inl RangeError)
      else if int (length xs) \<le> j
      then (if j < List_limit
            then Inr (xs @ replicate (nat j - length xs) VUndefined @ [v])
            else Inl RangeError)
      else Inr (xs[nat j := v]))"

text \<open>
  \<open>record.set(k, v)\<close>: Immutable 3, the version of the time of this code, raises an error
  for a key the record does not declare. The fields that the \<open>Page\<close> record declares are
  in \<open>model.js\<close>, which is not among the sources, so the list of their names is a
  parameter, \<open>declared\<close>, of this function and of those that call it. For a declared key
  the model stores the pair; Immutable returns the record itself when the field already
  reads as \<open>v\<close>, which reads the same.
\<close>

definition Record_set ::
  "string list \<Rightarrow> (string \<times> val) list \<Rightarrow> string \<Rightarrow> val \<Rightarrow> error + (string \<times> val) list" where
  "Record_set declared es k v =
     (if k \<in> set declared then Inr (AList.update k v es) else Inl (UnknownKey k))"

section \<open>The state of a window's tabs and the actions\<close>

text \<open>
  An action is a plain object: its \<open>type\<close> and the fields that \<open>basic\<close> reads from it.
  The state is the \<open>State\<close> record that \<open>closeTab\<close> and \<open>attachTab\<close> build from \<open>pages\<close>,
  \<open>pageOrder\<close> and \<open>currentPageIndex\<close>. Page indices are integers: the reducer compares
  them with \<open>-1\<close> and Immutable accepts negative ones.
\<close>

record action =
  type :: string
  location :: val
  pageIndex :: int
  page :: "(string \<times> val) list"
  userTyped :: val
  details :: "(string \<times> val) list"
  pageOrder :: "int list"

record State =
  pages :: "val list"
  pageOrder :: "int list"
  currentPageIndex :: int

text \<open>
  Modelled from the spec: the eight action types of \<open>constants/action-types\<close>, which is
  not among the sources.
\<close>

definition CREATE_TAB :: string where "CREATE_TAB = ''CREATE_TAB''"
definition DUPLICATE_TAB :: string where "DUPLICATE_TAB = ''DUPLICATE_TAB''"
definition ATTACH_TAB :: string where "ATTACH_TAB = ''ATTACH_TAB''"
definition CLOSE_TAB :: string where "CLOSE_TAB = ''CLOSE_TAB''"
definition SET_LOCATION :: string where "SET_LOCATION = ''SET_LOCATION''"
definition SET_PAGE_DETAILS :: string where "SET_PAGE_DETAILS = ''SET_PAGE_DETAILS''"
definition SET_CURRENT_TAB :: string where "SET_CURRENT_TAB = ''SET_CURRENT_TAB''"
definition SET_PAGE_ORDER :: string where "SET_PAGE_ORDER = ''SET_PAGE_ORDER''"

definition HOME_PAGE :: string where
  "HOME_PAGE = ''https://www.mozilla.org/''"

text \<open>\<open>new Page({ location })\<close>.\<close>

definition new_Page :: "val \<Rightarrow> val" where
  "new_Page loc = VPage [(''location'', loc)]"

definition initialState :: State where
  "initialState =
     \<lparr>pages = [new_Page (VStr HOME_PAGE)], pageOrder = [0], currentPageIndex = 0\<rparr>"

text \<open>The last step of \<open>setIn\<close>: the new page list, if there is one, is set in the state.\<close>

definition set_pages :: "State \<Rightarrow> error + val list \<Rightarrow> error + State" where
  "set_pages s r = (case r of Inl e \<Rightarrow> Inl e | Inr ps \<Rightarrow> Inr (s\<lparr>pages := ps\<rparr>))"

text \<open>
  \<open>state.setIn(['pages', i, k], v)\<close>. A slot outside the list becomes a new \<open>Map\<close>; a
  slot holding a record or a map is updated; a slot holding anything else is an invalid
  key path.
\<close>

definition setIn_pages :: "string list \<Rightarrow> State \<Rightarrow> int \<Rightarrow> string \<Rightarrow> val \<Rightarrow> error + State" where
  "setIn_pages declared s i k v =
     (case List_get (pages s) i of
        None \<Rightarrow> set_pages s (List_set (pages s) i (VMap [(k, v)]))
      | Some (VPage es) \<Rightarrow>
          (case Record_set declared es k v of
             Inl e \<Rightarrow> Inl e
           | Inr es' \<Rightarrow> set_pages s (List_set (pages s) i (VPage es')))
      | Some (VMap es) \<Rightarrow> set_pages s (List_set (pages s) i (VMap (AList.update k v es)))
      | Some _ \<Rightarrow> Inl InvalidKeyPath)"

section \<open>The reducer\<close>

text \<open>
  The functions of \<^verbatim>\<open>main-reducers.js\<close>, in the order of the file. In \<open>createTab\<close>
  the parameter default \<open>location = HOME_PAGE\<close> applies to \<open>undefined\<close> only, and
  \<open>state.pages.size\<close> is the size before the page is pushed. In \<open>duplicateTab\<close> the value
  read by \<open>state.pages.get(pageIndex)\<close>, \<open>undefined\<close> outside the list, is what is passed
  as the location. \<open>attachTab\<close> builds the page from the entries of the object it is given.
\<close>

definition createTab :: "State \<Rightarrow> val \<Rightarrow> State" where
  "createTab s loc =
     (let page = new_Page (if loc = VUndefined then VStr HOME_PAGE else loc) in
      s\<lparr>pages := List_push (pages s) page,
        currentPageIndex := int (length (pages s)),
        pageOrder := List_push (pageOrder s) (int (length (pages s)))\<rparr>)"

definition duplicateTab :: "State \<Rightarrow> int \<Rightarrow> State" where
  "duplicateTab s i =
     (let loc = (case List_get (pages s) i of None \<Rightarrow> VUndefined | Some p \<Rightarrow> p);
          page = new_Page loc in
      s\<lparr>pages := List_push (pages s) page,
        currentPageIndex := int (length (pages s)),
        pageOrder := List_push (pageOrder s) (int (length (pages s)))\<rparr>)"

definition attachTab :: "State \<Rightarrow> (string \<times> val) list \<Rightarrow> State" where
  "attachTab s pg = \<lparr>pages = [VPage pg], pageOrder = [0], currentPageIndex = 0\<rparr>"

text \<open>
  \<open>closeTab\<close>: \<open>indexOf\<close> gives \<open>-1\<close> for an index that \<open>pageOrder\<close> does not list, and
  \<open>delete(-1)\<close> then removes the last entry of the order.
\<close>

definition closeTab :: "State \<Rightarrow> int \<Rightarrow> State" where
  "closeTab s i =
     (if length (pages s) = 1 then initialState
      else
        (let orderIndex = List_indexOf (pageOrder s) i in
         \<lparr>pages = List_delete (pages s) i,
          pageOrder = map (\<lambda>j. if j < i then j else j - 1) (List_delete (pageOrder s) orderIndex),
          currentPageIndex =
            (if currentPageIndex s = i
             then (if orderIndex > 0 then orderIndex - 1 else orderIndex)
             else (if currentPageIndex s > i then currentPageIndex s - 1
                   else currentPageIndex s))\<rparr>))"

definition setLocation :: "string list \<Rightarrow> State \<Rightarrow> val \<Rightarrow> error + State" where
  "setLocation declared s u = setIn_pages declared s (currentPageIndex s) ''userTyped'' u"

text \<open>
  Modelled from the spec: \<open>objectEntries\<close> of \<open>shared/util\<close>, which is not among the
  sources, yields the key/value pairs of the mapping; the mapping is given by its pairs.
\<close>

definition objectEntries :: "(string \<times> val) list \<Rightarrow> (string \<times> val) list" where
  "objectEntries d = d"

fun setPageDetails_loop ::
  "string list \<Rightarrow> State \<Rightarrow> int \<Rightarrow> (string \<times> val) list \<Rightarrow> error + State" where
  "setPageDetails_loop declared s i [] = Inr s"
| "setPageDetails_loop declared s i ((k, v) # kvs) =
     (case setIn_pages declared s i k v of
        Inl e \<Rightarrow> Inl e
      | Inr s' \<Rightarrow> setPageDetails_loop declared s' i kvs)"

definition setPageDetails ::
  "string list \<Rightarrow> State \<Rightarrow> int \<Rightarrow> (string \<times> val) list \<Rightarrow> error + State" where
  "setPageDetails declared s i d =
     setPageDetails_loop declared s (if i = -1 then currentPageIndex s else i) (objectEntries d)"

definition setCurrentTab :: "State \<Rightarrow> int \<Rightarrow> State" where
  "setCurrentTab s i = s\<lparr>currentPageIndex := i\<rparr>"

definition setPageOrder :: "State \<Rightarrow> int list \<Rightarrow> State" where
  "setPageOrder s po = s\<lparr>pageOrder := po\<rparr>"

text \<open>
  \<open>basic(state = initialState, action)\<close>: the store calls the reducer with no state at
  start-up, which is \<open>None\<close> here.
\<close>

definition basic :: "string list \<Rightarrow> State option \<Rightarrow> action \<Rightarrow> error + State" where
  "basic declared st a =
     (let s = (case st of None \<Rightarrow> initialState | Some s0 \<Rightarrow> s0) in
      if type a = CREATE_TAB then Inr (createTab s (location a))
      else if type a = DUPLICATE_TAB then Inr (duplicateTab s (pageIndex a))
      else if type a = ATTACH_TAB then Inr (attachTab s (page a))
      else if type a = CLOSE_TAB then Inr (closeTab s (pageIndex a))
      else if type a = SET_LOCATION then setLocation declared s (userTyped a)
      else if type a = SET_PAGE_DETAILS then setPageDetails declared s (pageIndex a) (details a)
      else if type a = SET_CURRENT_TAB then Inr (setCurrentTab s (pageIndex a))
      else if type a = SET_PAGE_ORDER then Inr (setPageOrder s (action.pageOrder a))
      else Inr s)"

text \<open>The store applies the reducer to each dispatched action in turn; an error ends it.\<close>

fun dispatch_all :: "string list \<Rightarrow> State \<Rightarrow> action list \<Rightarrow> error + State" where
  "dispatch_all declared s [] = Inr s"
| "dispatch_all declared s (a # as) =
     (case basic declared (Some s) a of
        Inl e \<Rightarrow> Inl e
      | Inr s' \<Rightarrow> dispatch_all declared s' as)"

text \<open>
  A sequence of \<open>CREATE_TAB\<close> and \<open>CLOSE_TAB\<close> actions in which every \<open>CLOSE_TAB\<close> names
  an index of the page list as it is when the action is dispatched. The reducer returns
  a state for both kinds of action, so the case of an error is never taken.
\<close>

fun create_close_in_range :: "string list \<Rightarrow> State \<Rightarrow> action list \<Rightarrow> bool" where
  "create_close_in_range declared s [] = True"
| "create_close_in_range declared s (a # as) =
     ((type a = CREATE_TAB \<or>
       (type a = CLOSE_TAB \<and> 0 \<le> pageIndex a \<and> pageIndex a < int (length (pages s)))) \<and>
      (case basic declared (Some s) a of
         Inl e \<Rightarrow> False
       | Inr s' \<Rightarrow> create_close_in_range declared s' as))"

fun is_Page :: "val \<Rightarrow> bool" where
  "is_Page (VPage es) = True"
| "is_Page v = False"

text \<open>
  The well-formed tab states of the spec's data model: every slot holds a page,
  \<open>pageOrder\<close> is a permutation of the page indices and \<open>currentPageIndex\<close> is one of them.
\<close>

definition TabState_ok :: "State \<Rightarrow> bool" where
  "TabState_ok s =
     (list_all is_Page (pages s) \<and>
      mset (pageOrder s) = mset (map int [0..<length (pages s)]) \<and>
      0 \<le> currentPageIndex s \<and> currentPageIndex s < int (length (pages s)))"

text \<open>
  The states in which no tab was ever moved: every slot holds a page, \<open>pageOrder\<close> lists
  the page indices in increasing order and \<open>currentPageIndex\<close> is one of them.
\<close>

definition pages_in_order :: "State \<Rightarrow> bool" where
  "pages_in_order s =
     (list_all is_Page (pages s) \<and>
      pageOrder s = map int [0..<length (pages s)] \<and>
      0 \<le> currentPageIndex s \<and> currentPageIndex s < int (length (pages s)))"





text \<open>
  An action object of a given type. A branch of the reducer reads only the fields its
  action carries; the other fields of the record are filled in and never read.
\<close>

definition action_of :: "string \<Rightarrow> action" where
  "action_of t =
     \<lparr>type = t, location = VUndefined, pageIndex = 0, page = [], userTyped = VUndefined,
      details = [], pageOrder = []\<rparr>"

section \<open>The diff engine of the main process\<close>

text \<open>
  \<^verbatim>\<open>src/app/main/browser.js\<close>. The profile state holds Immutable collections: the set
  of window ids (which \<open>sendToAllWindows\<close> allows to be missing), the list of recent
  bookmarks, the set of bookmarked URLs and the map of locations. A set and a map are
  given in the order their entries are visited, which is also what \<open>toJS\<close> returns.
\<close>

record ProfileState =
  browserWindows :: "nat list option"
  recentBookmarks :: "string list"
  bookmarks :: "string list"
  locations :: "(string \<times> string) list"

text \<open>\<open>Immutable.is\<close> on two sets (or two maps): the same entries, in any order.\<close>

definition Immutable_is_Set :: "'a list \<Rightarrow> 'a list \<Rightarrow> bool" where
  "Immutable_is_Set xs ys = (set xs = set ys)"

definition Immutable_is_windows :: "nat list option \<Rightarrow> nat list option \<Rightarrow> bool" where
  "Immutable_is_windows a b =
     (case (a, b) of
        (None, None) \<Rightarrow> True
      | (Some xs, Some ys) \<Rightarrow> Immutable_is_Set xs ys
      | _ \<Rightarrow> False)"

text \<open>
  Modelled from the spec: \<open>profileDiffs.bookmarks\<close> and \<open>profileDiffs.completions\<close> of
  \<open>shared/profile-diffs\<close>, which is not among the sources, build the plain key/value
  projection of the changed field; the two projections are kept apart as two
  constructors.
\<close>

datatype diff =
    profileDiffs_bookmarks "string list"
  | profileDiffs_completions "(string \<times> string) list"

text \<open>
  What a run does to the outside: a window shown or closed once it has finished loading,
  the menu rebuilt, and an event sent to all windows. One call of \<open>sendToAllWindows\<close> is
  one event: it is logged once, and carries the windows whose web contents received it.
\<close>

datatype effect =
    Show nat
  | Close nat
  | BrowserMenu_build "string list"
  | Sent string diff "nat list"

text \<open>
  \<open>fromId\<close> stands for \<open>BrowserWindow.fromId\<close>: it tells whether a window of that id
  still exists. With no window set the call returns after logging, and no window
  receives the event.
\<close>

definition sendToAllWindows :: "(nat \<Rightarrow> bool) \<Rightarrow> ProfileState \<Rightarrow> string \<Rightarrow> diff \<Rightarrow> effect" where
  "sendToAllWindows fromId st event args =
     Sent event args
       (case browserWindows st of
          None \<Rightarrow> []
        | Some windows \<Rightarrow> filter fromId windows)"

text \<open>
  The block that shows new windows and closes old ones. It calls \<open>forEach\<close> and \<open>has\<close>
  on both window sets, so it raises when one of them is missing.
\<close>

definition showAndClose :: "(nat \<Rightarrow> bool) \<Rightarrow> ProfileState \<Rightarrow> ProfileState \<Rightarrow> error + effect list" where
  "showAndClose fromId previousState currentState =
     (case (browserWindows currentState, browserWindows previousState) of
        (Some cw, Some pw) \<Rightarrow>
          Inr (map Show (filter (\<lambda>id. id \<notin> set pw \<and> fromId id) cw) @
               map Close (filter (\<lambda>id. id \<notin> set cw \<and> fromId id) pw))
      | _ \<Rightarrow> Inl TypeError)"

text \<open>
  One run of \<open>sendDiffsToWindows\<close>: from the snapshot kept by the last run (none on the
  first run) and the store's state, to the snapshot it keeps and the effects, or the
  error that ends it.
\<close>

definition sendDiffsToWindows ::
  "(nat \<Rightarrow> bool) \<Rightarrow> ProfileState option \<Rightarrow> ProfileState \<Rightarrow> ProfileState \<times> (error + effect list)" where
  "sendDiffsToWindows fromId previousState currentState =
     (currentState,
      (case (case previousState of
               None \<Rightarrow> Inr []
             | Some p \<Rightarrow>
                 if Immutable_is_windows (browserWindows currentState) (browserWindows p)
                 then Inr []
                 else showAndClose fromId p currentState) of
         Inl e \<Rightarrow> Inl e
       | Inr ws \<Rightarrow>
           Inr (ws @
             (if (case previousState of None \<Rightarrow> True
                  | Some p \<Rightarrow> recentBookmarks currentState \<noteq> recentBookmarks p)
              then [BrowserMenu_build (recentBookmarks currentState)] else []) @
             (if (case previousState of None \<Rightarrow> True
                  | Some p \<Rightarrow> \<not> Immutable_is_Set (bookmarks currentState) (bookmarks p))
              then [sendToAllWindows fromId currentState ''profile-diff''
                      (profileDiffs_bookmarks (bookmarks currentState))]
              else []) @
             (if (case previousState of None \<Rightarrow> True
                  | Some p \<Rightarrow> \<not> Immutable_is_Set (locations currentState) (locations p))
              then [sendToAllWindows fromId currentState ''profile-diff''
                      (profileDiffs_completions (locations currentState))]
              else []))))"

section \<open>The bookmark actions\<close>

text \<open>
  \<open>encodeURIComponent\<close> on a string given by its UTF-8 bytes: letters, digits and
  \<open>- _ . ! ~ * ' ( )\<close> stay, every other byte becomes \<open>%\<close> and two hexadecimal digits.
\<close>

definition unreserved :: "char \<Rightarrow> bool" where
  "unreserved c =
     (c \<in> set ''ABCDEFGHIJKLMNOPQRSTUVWXYZabcdefghijklmnopqrstuvwxyz0123456789-_.!~*()''
      \<or> c = CHR 0x27)"

definition hexDigit :: "nat \<Rightarrow> char" where
  "hexDigit n = ''0123456789ABCDEF'' ! (n mod 16)"

definition encodeURIComponent :: "string \<Rightarrow> string" where
  "encodeURIComponent u =
     concat (map (\<lambda>c. if unreserved c then [c]
                       else [CHR ''%'', hexDigit (of_char c div 16), hexDigit (of_char c)]) u)"

text \<open>
  Modelled from the spec: the requests that the remote bookmark service receives,
  \<open>POST\<close> or \<open>DELETE\<close> on a URL with the body \<open>{ session }\<close>. The code that sends them is
  not among the sources.
\<close>

datatype http_method = POST | DELETE

record request =
  request_method :: http_method
  url :: string
  json_session :: val

text \<open>
  Modelled from the spec: the window's store as far as the bookmark actions use it, which
  is the set of bookmarked URLs of its profile state and the session id of each page, by
  page id. The store and its selectors are not among the sources.
\<close>

record BrowserState =
  profile_bookmarks :: "string set"
  page_sessionId :: "nat \<Rightarrow> val option"

text \<open>
  Modelled from the spec: the session id of the page \<open>pageId\<close>. The spec does not say what
  is sent for a page id that no page has; the model sends \<open>undefined\<close> then.
\<close>

definition sessionOf :: "BrowserState \<Rightarrow> nat \<Rightarrow> val" where
  "sessionOf st pageId = (case page_sessionId st pageId of None \<Rightarrow> VUndefined | Some sid \<Rightarrow> sid)"

text \<open>
  Modelled from the spec: the URL \<open>{base}/stars/{url-encoded location}\<close> of the remote
  bookmark service; \<open>base\<close> stands for the constant \<open>UA_SERVICE_HTTP\<close> of
  \<open>shared/constants/endpoints\<close>, which is not among the sources.
\<close>

definition stars :: "string \<Rightarrow> string \<Rightarrow> string" where
  "stars base u = base @ ''/stars/'' @ encodeURIComponent u"

text \<open>
  Modelled from the spec: the action \<open>bookmark\<close> of \<open>actions/main-actions\<close> and the profile
  reducer it dispatches to are not among the sources; only their test is. By the spec the
  profile state holds the set of bookmarked URLs, the local state is updated at once, and
  the remote service gets \<open>POST {base}/stars/{url-encoded location}\<close> with body
  \<open>{ session }\<close>. By the test the URL is in the set after \<open>bookmark\<close>. The result is the new
  state and the requests sent.
\<close>

definition bookmark :: "string \<Rightarrow> BrowserState \<Rightarrow> nat \<Rightarrow> string \<Rightarrow> string \<Rightarrow> BrowserState \<times> request list" where
  "bookmark base st pageId u title =
     (st\<lparr>profile_bookmarks := insert u (profile_bookmarks st)\<rparr>,
      [\<lparr>request_method = POST, url = stars base u, json_session = sessionOf st pageId\<rparr>])"

text \<open>
  Modelled from the spec: the action \<open>unbookmark\<close> of \<open>actions/main-actions\<close>, not among
  the sources either. By the spec the remote service gets \<open>DELETE\<close> on the same URL with
  the same body; by the test the URL is out of the set after \<open>unbookmark\<close>.
\<close>

definition unbookmark :: "string \<Rightarrow> BrowserState \<Rightarrow> nat \<Rightarrow> string \<Rightarrow> BrowserState \<times> request list" where
  "unbookmark base st pageId u =
     (st\<lparr>profile_bookmarks := profile_bookmarks st - {u}\<rparr>,
      [\<lparr>request_method = DELETE, url = stars base u, json_session = sessionOf st pageId\<rparr>])"

section \<open>Example inputs\<close>

text \<open>
  Modelled from the spec: the fields of the \<open>Page\<close> record that the spec names. The record
  of \<open>model.js\<close> may declare more; this list is passed as \<open>declared\<close> in the examples
  only. The key that the examples take to be undeclared, \<open>bogus\<close>, is no field of a page.
\<close>

definition named_fields :: "string list" where
  "named_fields = [''location'', ''userTyped'', ''sessionId'']"

text \<open>The scenario of the spec: open \<open>http://a.com\<close>, then close the first tab.\<close>

definition open_then_close :: "action list" where
  "open_then_close =
     [(action_of CREATE_TAB)\<lparr>location := VStr ''http://a.com''\<rparr>,
      (action_of CLOSE_TAB)\<lparr>pageIndex := 0\<rparr>]"

text \<open>
  Three tabs shown in the order \<open>c.com\<close>, \<open>a.com\<close>, \<open>b.com\<close>, with \<open>a.com\<close> selected, and
  actions that lead there from the initial state.
\<close>

definition reorder_actions :: "action list" where
  "reorder_actions =
     [(action_of CREATE_TAB)\<lparr>location := VStr ''http://a.com''\<rparr>,
      (action_of CLOSE_TAB)\<lparr>pageIndex := 0\<rparr>,
      (action_of CREATE_TAB)\<lparr>location := VStr ''http://b.com''\<rparr>,
      (action_of CREATE_TAB)\<lparr>location := VStr ''http://c.com''\<rparr>,
      (action_of SET_PAGE_ORDER)\<lparr>action.pageOrder := [2, 0, 1]\<rparr>,
      (action_of SET_CURRENT_TAB)\<lparr>pageIndex := 0\<rparr>]"

definition reordered :: State where
  "reordered =
     \<lparr>pages = [new_Page (VStr ''http://a.com''), new_Page (VStr ''http://b.com''),
               new_Page (VStr ''http://c.com'')],
      pageOrder = [2, 0, 1], currentPageIndex = 0\<rparr>"

text \<open>Two tabs, the second one selected.\<close>

definition two_tabs :: State where
  "two_tabs =
     \<lparr>pages = [new_Page (VStr HOME_PAGE), new_Page (VStr ''http://a.com'')],
      pageOrder = [0, 1], currentPageIndex = 1\<rparr>"

definition ex_profile :: ProfileState where
  "ex_profile =
     \<lparr>browserWindows = Some [1, 2], recentBookmarks = [], bookmarks = [],
      locations = [(''http://b.com'', ''b'')]\<rparr>"

definition ex_browser :: BrowserState where
  "ex_browser =
     \<lparr>profile_bookmarks = {''http://moz1.com''},
      page_sessionId = (\<lambda>n. if n = 0 then Some (VNum 1) else None)\<rparr>"

section \<open>The Immutable list operations\<close>

lemma List_get_Some_iff:
  "List_get xs i = Some x \<longleftrightarrow> List_has xs i \<and> xs ! nat (wrapIndex xs i) = x"
  by (simp add: List_get_def)

lemma List_set_in_range:
  "List_has xs i \<Longrightarrow> List_set xs i v = Inr (xs[nat (wrapIndex xs i) := v])"
  by (simp add: List_set_def List_has_def Let_def)

lemma wrapIndex_update: "wrapIndex (xs[n := y]) i = wrapIndex xs i"
  by (simp add: wrapIndex_def)


text \<open>Whatever the index, the slot written by \<open>set\<close> is the one \<open>get\<close> reads back.\<close>

lemma List_get_List_set:
  assumes "List_set xs i v = Inr zs"
  shows "List_get zs i = Some v"
proof -
  let ?j = "wrapIndex xs i"
  consider (inside) "List_has xs i" | (before) "?j < 0" | (after) "int (length xs) \<le> ?j"
    by (metis List_has_def not_less)
  then show ?thesis
  proof cases
    case inside
    then have "List_set xs i v = Inr (xs[nat ?j := v])" by (rule List_set_in_range)
    then have zs: "zs = xs[nat ?j := v]" using assms by simp
    have "0 \<le> ?j" "?j < int (length xs)" using inside by (simp_all add: List_has_def)
    moreover have "wrapIndex (xs[nat ?j := v]) i = ?j" by (rule wrapIndex_update)
    ultimately show ?thesis
      by (simp add: zs List_get_def List_has_def)
  next
    case before
    then have i: "i < 0" "int (length xs) + i < 0"
      by (simp_all add: wrapIndex_def split: if_splits)
    define ys where "ys = v # replicate (nat (- ?j) - 1) VUndefined @ xs"
    have "List_set xs i v = Inr ys \<or> List_set xs i v = Inl RangeError"
      using before by (simp add: List_set_def Let_def ys_def)
    then have zs: "zs = ys" using assms by auto
    have len: "int (length ys) = - i"
      using i by (simp add: ys_def wrapIndex_def)
    have w: "wrapIndex ys i = 0"
      using i len by (simp add: wrapIndex_def)
    have "ys ! 0 = v" by (simp add: ys_def)
    then show ?thesis
      using w len i by (simp add: zs List_get_def List_has_def)
  next
    case after
    then have i: "0 \<le> i" "int (length xs) \<le> i"
      by (simp_all add: wrapIndex_def split: if_splits)
    define ys where "ys = xs @ replicate (nat ?j - length xs) VUndefined @ [v]"
    have "List_set xs i v = Inr ys \<or> List_set xs i v = Inl RangeError"
      using after i by (simp add: List_set_def Let_def ys_def wrapIndex_def)
    then have zs: "zs = ys" using assms by auto
    have j: "?j = i" using i by (simp add: wrapIndex_def)
    have len: "length ys = Suc (nat i)"
      using i by (simp add: ys_def j)
    have w: "wrapIndex ys i = i"
      using i by (simp add: wrapIndex_def)
    have "length xs \<le> nat i" using i by simp
    then have "ys ! nat i = v"
      by (simp add: ys_def j nth_append)
    then show ?thesis
      using w len i by (simp add: zs List_get_def List_has_def)
  qed
qed

lemma List_get_update_same:
  fixes xs :: "val list"
  assumes "List_has xs i"
  shows "List_get (xs[nat (wrapIndex xs i) := y]) i = Some y"
  using List_get_List_set [OF List_set_in_range [OF assms]] .

lemma List_delete_in_range:
  "0 \<le> i \<Longrightarrow> i < int (length xs) \<Longrightarrow>
   List_delete xs i = take (nat i) xs @ drop (Suc (nat i)) xs"
  by (simp add: List_delete_def List_has_def wrapIndex_def)

lemma length_List_delete:
  "0 \<le> i \<Longrightarrow> i < int (length xs) \<Longrightarrow> length (List_delete xs i) = length xs - 1"
  by (simp add: List_delete_in_range)

lemma list_all_List_delete: "list_all P xs \<Longrightarrow> list_all P (List_delete xs i)"
  by (auto simp: List_delete_def list_all_iff dest: in_set_takeD in_set_dropD)

lemma indexOf_upt:
  "m \<le> i \<Longrightarrow> i < n \<Longrightarrow> List_indexOf (map int [m..<n]) (int i) = int i - int m"
proof (induction "n - m" arbitrary: m)
  case 0
  then show ?case by simp
next
  case (Suc d)
  then have mn: "m < n" by simp
  show ?case
  proof (cases "m = i")
    case True
    then show ?thesis using mn by (simp add: upt_conv_Cons)
  next
    case False
    then have le: "Suc m \<le> i" using Suc.prems by simp
    moreover have "d = n - Suc m" using Suc.hyps by simp
    ultimately have "List_indexOf (map int [Suc m..<n]) (int i) = int i - int (Suc m)"
      using Suc.hyps(1) Suc.prems(2) by blast
    then show ?thesis using mn False le by (simp add: upt_conv_Cons Let_def)
  qed
qed

lemma indexOf_identity:
  "0 \<le> i \<Longrightarrow> i < int n \<Longrightarrow> List_indexOf (map int [0..<n]) i = i"
  using indexOf_upt [of 0 "nat i" n] by simp

text \<open>Deleting an index from the increasing order and renumbering gives it back, one shorter.\<close>

lemma renumber_identity:
  assumes "0 \<le> i" "i < int n"
  shows "map (\<lambda>j. if j < i then j else j - 1) (List_delete (map int [0..<n]) i) =
         map int [0..<n - 1]"
proof -
  have k: "nat i < n" using assms by simp
  have del: "List_delete (map int [0..<n]) i = map int ([0..<nat i] @ [Suc (nat i)..<n])"
    using assms k by (simp add: List_delete_in_range take_map drop_map)
  show ?thesis
    unfolding del
  proof (rule nth_equalityI)
    show "length (map (\<lambda>j. if j < i then j else j - 1) (map int ([0..<nat i] @ [Suc (nat i)..<n]))) =
          length (map int [0..<n - 1])"
      using k by simp
  next
    fix m
    assume "m < length (map (\<lambda>j. if j < i then j else j - 1)
                         (map int ([0..<nat i] @ [Suc (nat i)..<n])))"
    then have m: "m < n - 1" using k by simp
    show "map (\<lambda>j. if j < i then j else j - 1) (map int ([0..<nat i] @ [Suc (nat i)..<n])) ! m =
          map int [0..<n - 1] ! m"
    proof (cases "m < nat i")
      case True
      then show ?thesis using m k assms by (simp add: nth_append)
    next
      case False
      then show ?thesis using m k assms by (simp add: nth_append)
    qed
  qed
qed

lemma map_of_fold_update:
  "map_of (fold (\<lambda>(k, v). AList.update k v) kvs es) = map_of es ++ map_of (rev kvs)"
proof (induction kvs arbitrary: es)
  case Nil
  then show ?case by simp
next
  case (Cons kv kvs)
  obtain k v where kv: "kv = (k, v)" by (cases kv)
  show ?case
    by (simp add: kv Cons.IH update_conv' fun_upd_def map_add_def fun_eq_iff split: option.splits)
qed

section \<open>The branches of the reducer\<close>

lemmas action_types =
  CREATE_TAB_def DUPLICATE_TAB_def ATTACH_TAB_def CLOSE_TAB_def SET_LOCATION_def
  SET_PAGE_DETAILS_def SET_CURRENT_TAB_def SET_PAGE_ORDER_def

lemma basic_CREATE_TAB:
  "type a = CREATE_TAB \<Longrightarrow> basic declared (Some s) a = Inr (createTab s (location a))"
  by (simp add: basic_def)

lemma basic_CLOSE_TAB:
  "type a = CLOSE_TAB \<Longrightarrow> basic declared (Some s) a = Inr (closeTab s (pageIndex a))"
  by (simp add: basic_def action_types)


lemma basic_SET_PAGE_DETAILS:
  "type a = SET_PAGE_DETAILS \<Longrightarrow>
   basic declared (Some s) a = setPageDetails declared s (pageIndex a) (details a)"
  by (simp add: basic_def action_types)


lemma closeTab_single:
  "length (pages s) = 1 \<Longrightarrow> closeTab s i = initialState"
  by (simp add: closeTab_def)

section \<open>Creating and closing tabs keeps the pages in order\<close>

lemma pages_in_order_initialState: "pages_in_order initialState"
  by (simp add: pages_in_order_def initialState_def new_Page_def)

lemma pages_in_order_createTab: "pages_in_order s \<Longrightarrow> pages_in_order (createTab s loc)"
  by (simp add: pages_in_order_def createTab_def List_push_def new_Page_def)

lemma pages_in_order_closeTab:
  assumes "pages_in_order s" "0 \<le> i" "i < int (length (pages s))"
  shows "pages_in_order (closeTab s i)"
proof (cases "length (pages s) = 1")
  case True
  then show ?thesis by (simp add: closeTab_def pages_in_order_initialState)
next
  case False
  have po: "pageOrder s = map int [0..<length (pages s)]"
    using assms(1) by (simp add: pages_in_order_def)
  have oi: "List_indexOf (pageOrder s) i = i"
    using assms(2,3) by (simp add: po indexOf_identity)
  have len: "length (List_delete (pages s) i) = length (pages s) - 1"
    using assms(2,3) by (rule length_List_delete)
  have ren: "map (\<lambda>j. if j < i then j else j - 1) (List_delete (pageOrder s) i) =
             map int [0..<length (pages s) - 1]"
    using assms(2,3) by (simp add: po renumber_identity)
  have pg: "list_all is_Page (List_delete (pages s) i)"
    using assms(1) by (simp add: pages_in_order_def list_all_List_delete)
  have c: "0 \<le> currentPageIndex s" "currentPageIndex s < int (length (pages s))"
    using assms(1) by (simp_all add: pages_in_order_def)
  show ?thesis
    using False oi len ren pg c assms(2,3)
    by (auto simp: closeTab_def pages_in_order_def Let_def)
qed

lemma pages_in_order_TabState_ok: "pages_in_order s \<Longrightarrow> TabState_ok s"
  by (simp add: pages_in_order_def TabState_ok_def)

lemma pages_in_order_dispatch_all:
  "pages_in_order s \<Longrightarrow> create_close_in_range declared s as \<Longrightarrow>
   \<exists>s'. dispatch_all declared s as = Inr s' \<and> pages_in_order s'"
proof (induction as arbitrary: s)
  case Nil
  then show ?case by simp
next
  case (Cons a as)
  from Cons.prems(2) consider
      (create) "type a = CREATE_TAB"
    | (close) "type a = CLOSE_TAB" "0 \<le> pageIndex a" "pageIndex a < int (length (pages s))"
    by auto
  then show ?case
  proof cases
    case create
    then have b: "basic declared (Some s) a = Inr (createTab s (location a))"
      by (rule basic_CREATE_TAB)
    have "pages_in_order (createTab s (location a))"
      using Cons.prems(1) by (rule pages_in_order_createTab)
    moreover have "create_close_in_range declared (createTab s (location a)) as"
      using Cons.prems(2) b by simp
    ultimately show ?thesis using Cons.IH b by simp
  next
    case close
    then have b: "basic declared (Some s) a = Inr (closeTab s (pageIndex a))"
      by (simp add: basic_CLOSE_TAB)
    have "pages_in_order (closeTab s (pageIndex a))"
      using Cons.prems(1) close(2,3) by (rule pages_in_order_closeTab)
    moreover have "create_close_in_range declared (closeTab s (pageIndex a)) as"
      using Cons.prems(2) b by simp
    ultimately show ?thesis using Cons.IH b by simp
  qed
qed

text \<open>
  Claim C1. For every sequence of \<open>CreateTab\<close> and \<open>CloseTab\<close> actions whose \<open>pageIndex\<close>
  arguments are in range, dispatched from the initial state, the reducer returns a state
  in which every slot holds a page, \<open>pageOrder\<close> is a permutation of the page indices and
  \<open>currentPageIndex\<close> is the index of a page.
\<close>

theorem create_close_invariant:
  assumes "create_close_in_range declared initialState as"
  shows "\<exists>s. dispatch_all declared initialState as = Inr s \<and> TabState_ok s"
  using pages_in_order_dispatch_all [OF pages_in_order_initialState assms]
    pages_in_order_TabState_ok by blast

text \<open>
  The scenario of the spec: after \<open>CreateTab("http://a.com")\<close> and \<open>CloseTab(0)\<close> the
  state is the single page \<open>a.com\<close>, order \<open>[0]\<close>, current index \<open>0\<close>.
\<close>

theorem create_close_invariant_witness:
  "create_close_in_range named_fields initialState open_then_close
   \<and> dispatch_all named_fields initialState open_then_close =
       Inr \<lparr>pages = [new_Page (VStr ''http://a.com'')], pageOrder = [0], currentPageIndex = 0\<rparr>
   \<and> (\<exists>s. dispatch_all named_fields initialState open_then_close = Inr s \<and> TabState_ok s)"
proof -
  have h: "create_close_in_range named_fields initialState open_then_close"
    by (simp add: open_then_close_def action_of_def basic_def initialState_def createTab_def
        closeTab_def new_Page_def List_push_def action_types)
  have d: "dispatch_all named_fields initialState open_then_close =
       Inr \<lparr>pages = [new_Page (VStr ''http://a.com'')], pageOrder = [0], currentPageIndex = 0\<rparr>"
    by (simp add: open_then_close_def action_of_def basic_def initialState_def createTab_def
        closeTab_def new_Page_def List_push_def action_types List_delete_def List_has_def
        wrapIndex_def)
  show ?thesis using h d create_close_invariant [OF h] by simp
qed

section \<open>Closing a tab\<close>

lemma indexOf_notin: "x \<notin> set xs \<Longrightarrow> List_indexOf xs x = -1"
  by (induction xs) (auto simp: Let_def)

lemma indexOf_bounds:
  "x \<in> set xs \<Longrightarrow> 0 \<le> List_indexOf xs x \<and> List_indexOf xs x < int (length xs)"
  by (induction xs) (auto simp: Let_def indexOf_notin)

lemma delete_indexOf: "x \<in> set xs \<Longrightarrow> List_delete xs (List_indexOf xs x) = remove1 x xs"
proof (induction xs)
  case Nil
  then show ?case by simp
next
  case (Cons y ys)
  show ?case
  proof (cases "y = x")
    case True
    then show ?thesis by (simp add: List_delete_def List_has_def wrapIndex_def)
  next
    case False
    then have x: "x \<in> set ys" using Cons.prems by simp
    have b: "0 \<le> List_indexOf ys x" "List_indexOf ys x < int (length ys)"
      using indexOf_bounds [OF x] by simp_all
    have "List_delete ys (List_indexOf ys x) = remove1 x ys" using Cons.IH x by simp
    then have "take (nat (List_indexOf ys x)) ys @ drop (Suc (nat (List_indexOf ys x))) ys =
               remove1 x ys"
      using b by (simp add: List_delete_in_range)
    moreover have "nat (List_indexOf ys x + 1) = Suc (nat (List_indexOf ys x))"
      using b by simp
    ultimately show ?thesis
      using False b by (simp add: Let_def List_delete_in_range)
  qed
qed

text \<open>
  What \<open>closeTab\<close> computes when more than one page is open and \<open>pageIndex\<close> is in range
  and listed in \<open>pageOrder\<close>: the page and its order entry are removed and the larger
  entries renumbered; an unselected page leaves the selection on the same page; and when
  the selected page is closed, \<open>currentPageIndex\<close> becomes a position of \<open>pageOrder\<close>.
\<close>

lemma closeTab_in_range:
  assumes "length (pages s) \<noteq> 1" "i \<in> set (pageOrder s)" "0 \<le> i" "i < int (length (pages s))"
  shows "closeTab s i =
     \<lparr>pages = take (nat i) (pages s) @ drop (Suc (nat i)) (pages s),
      pageOrder = map (\<lambda>j. if j < i then j else j - 1) (remove1 i (pageOrder s)),
      currentPageIndex =
        (if currentPageIndex s = i
         then (if List_indexOf (pageOrder s) i > 0 then List_indexOf (pageOrder s) i - 1 else 0)
         else if currentPageIndex s > i then currentPageIndex s - 1
         else currentPageIndex s)\<rparr>"
proof -
  have b: "0 \<le> List_indexOf (pageOrder s) i" using indexOf_bounds [OF assms(2)] by simp
  have z: "\<not> 0 < List_indexOf (pageOrder s) i \<Longrightarrow> List_indexOf (pageOrder s) i = 0"
    using b by simp
  show ?thesis
    using assms(1) z
    by (simp add: closeTab_def Let_def delete_indexOf [OF assms(2)]
        List_delete_in_range [OF assms(3,4)])
qed

text \<open>
  Claim C2. With more than one page and an in-range \<open>pageIndex\<close>, \<open>CloseTab\<close> is to select,
  when the closed page was the selected one, the page just before it in display order.
  The code assigns the display position \<open>orderIndex - 1\<close> to \<open>currentPageIndex\<close>, which
  everywhere else is an index into \<open>pages\<close>. In the state \<open>reordered\<close> the tabs are shown as
  \<open>c.com\<close>, \<open>a.com\<close>, \<open>b.com\<close> and \<open>a.com\<close> is selected; closing it should select \<open>c.com\<close>,
  the page at index 1 of the new page list, and the reducer returns index 0, which is
  \<open>b.com\<close>. The state is one the reducer reaches from the initial state.
\<close>

theorem closeTab_selects_display_position:
  "dispatch_all declared initialState reorder_actions = Inr reordered
   \<and> TabState_ok reordered
   \<and> List_get (pages reordered) (pageOrder reordered ! 0) = Some (new_Page (VStr ''http://c.com''))
   \<and> basic declared (Some reordered) ((action_of CLOSE_TAB)\<lparr>pageIndex := 0\<rparr>) =
       Inr \<lparr>pages = [new_Page (VStr ''http://b.com''), new_Page (VStr ''http://c.com'')],
            pageOrder = [1, 0], currentPageIndex = 0\<rparr>"
  by (simp add: reorder_actions_def reordered_def TabState_ok_def new_Page_def initialState_def
      List_get_def List_has_def wrapIndex_def List_push_def List_delete_def basic_def
      action_of_def action_types createTab_def closeTab_def setPageOrder_def setCurrentTab_def)

text \<open>
  Claim C3. \<open>DuplicateTab(pageIndex)\<close> is to append a page whose location is the location
  of the page at \<open>pageIndex\<close>. The code passes the page itself as the location: from the
  initial state, \<open>DuplicateTab(0)\<close> appends a page whose \<open>location\<close> is the whole home page
  record and not the string \<open>https://www.mozilla.org/\<close>. The order and the current index
  are updated as by \<open>CreateTab\<close>.
\<close>

theorem duplicateTab_stores_page:
  "basic declared (Some initialState) ((action_of DUPLICATE_TAB)\<lparr>pageIndex := 0\<rparr>) =
     Inr \<lparr>pages = [VPage [(''location'', VStr HOME_PAGE)],
                   VPage [(''location'', VPage [(''location'', VStr HOME_PAGE)])]],
          pageOrder = [0, 1], currentPageIndex = 1\<rparr>"
  by (simp add: basic_def action_of_def action_types duplicateTab_def initialState_def new_Page_def
      List_get_def List_has_def wrapIndex_def List_push_def)

section \<open>The diff engine\<close>

lemma Immutable_is_windows_refl: "Immutable_is_windows w w"
  by (cases w) (simp_all add: Immutable_is_windows_def Immutable_is_Set_def)

text \<open>
  Claim C4. When the previous snapshot has no bookmarks and the store's state differs
  from it only in holding one bookmarked URL, a run of \<open>sendDiffsToWindows\<close> sends exactly
  one event: a \<open>profile-diff\<close> carrying the bookmarks projection, to the windows that
  exist. Nothing is sent for the locations, the menu is not rebuilt, no window is shown
  or closed.
\<close>

theorem sendDiffs_bookmarks_only:
  assumes "bookmarks p = []"
  shows "sendDiffsToWindows fromId (Some p) (p\<lparr>bookmarks := [u]\<rparr>) =
           (p\<lparr>bookmarks := [u]\<rparr>,
            Inr [Sent ''profile-diff'' (profileDiffs_bookmarks [u])
                   (case browserWindows p of None \<Rightarrow> [] | Some ws \<Rightarrow> filter fromId ws)])"
  using assms
  by (simp add: sendDiffsToWindows_def Immutable_is_windows_refl Immutable_is_Set_def
      sendToAllWindows_def)

theorem sendDiffs_bookmarks_only_witness:
  "bookmarks ex_profile = []
   \<and> sendDiffsToWindows (\<lambda>id. True) (Some ex_profile)
         (ex_profile\<lparr>bookmarks := [''http://a.com'']\<rparr>) =
       (ex_profile\<lparr>bookmarks := [''http://a.com'']\<rparr>,
        Inr [Sent ''profile-diff'' (profileDiffs_bookmarks [''http://a.com'']) [1, 2]])"
proof -
  have h: "bookmarks ex_profile = []" by (simp add: ex_profile_def)
  show ?thesis
    using h sendDiffs_bookmarks_only [OF h, of "\<lambda>id. True" "''http://a.com''"]
    by (simp add: ex_profile_def)
qed

section \<open>The bookmark actions\<close>

text \<open>
  Claim C6. \<open>Bookmark\<close> sends no \<open>DELETE\<close> request. \<open>Unbookmark\<close> sends exactly one, to
  \<open>{base}/stars/{url-encoded(url)}\<close>, with the session id of the page as its body.
\<close>

theorem unbookmark_sends_delete:
  assumes "page_sessionId st pageId = Some sid"
  shows "filter (\<lambda>r. request_method r = DELETE) (snd (bookmark base st pageId u title)) = []
         \<and> filter (\<lambda>r. request_method r = DELETE) (snd (unbookmark base st pageId u)) =
             [\<lparr>request_method = DELETE, url = base @ ''/stars/'' @ encodeURIComponent u,
               json_session = sid\<rparr>]"
  using assms by (simp add: bookmark_def unbookmark_def stars_def sessionOf_def)

text \<open>The test's page, with session 1, and its URL \<open>http://moz1.com\<close>.\<close>

theorem unbookmark_sends_delete_witness:
  "page_sessionId ex_browser 0 = Some (VNum 1)
   \<and> filter (\<lambda>r. request_method r = DELETE)
         (snd (bookmark ''http://localhost'' ex_browser 0 ''http://moz1.com'' ''moz1'')) = []
   \<and> filter (\<lambda>r. request_method r = DELETE)
         (snd (unbookmark ''http://localhost'' ex_browser 0 ''http://moz1.com'')) =
       [\<lparr>request_method = DELETE, url = ''http://localhost/stars/http%3A%2F%2Fmoz1.com'',
         json_session = VNum 1\<rparr>]"
proof -
  have h: "page_sessionId ex_browser 0 = Some (VNum 1)" by (simp add: ex_browser_def)
  have e: "encodeURIComponent ''http://moz1.com'' = ''http%3A%2F%2Fmoz1.com''"
    by (simp add: encodeURIComponent_def unreserved_def hexDigit_def)
  show ?thesis
    using h unbookmark_sends_delete
      [OF h, of "''http://localhost''" "''http://moz1.com''" "''moz1''"]
    by (simp add: e)
qed

section \<open>Closing the last tab\<close>

text \<open>
  Claim C7. In a state with exactly one page, \<open>CloseTab\<close> with any \<open>pageIndex\<close> returns
  the initial state: one page at the home location, order \<open>[0]\<close>, current index \<open>0\<close>.
\<close>

theorem closeTab_last_page:
  assumes "type a = CLOSE_TAB" "length (pages s) = 1"
  shows "basic declared (Some s) a = Inr initialState
         \<and> initialState =
             \<lparr>pages = [VPage [(''location'', VStr ''https://www.mozilla.org/'')]],
              pageOrder = [0], currentPageIndex = 0\<rparr>"
  using assms
  by (simp add: basic_CLOSE_TAB closeTab_single) (simp add: initialState_def new_Page_def HOME_PAGE_def)

text \<open>The single page \<open>a.com\<close>, closed with the out-of-range index 7.\<close>

theorem closeTab_last_page_witness:
  "type ((action_of CLOSE_TAB)\<lparr>pageIndex := 7\<rparr>) = CLOSE_TAB
   \<and> length (pages \<lparr>pages = [new_Page (VStr ''http://a.com'')], pageOrder = [0],
                      currentPageIndex = 0\<rparr>) = 1
   \<and> basic named_fields (Some \<lparr>pages = [new_Page (VStr ''http://a.com'')], pageOrder = [0],
                    currentPageIndex = 0\<rparr>) ((action_of CLOSE_TAB)\<lparr>pageIndex := 7\<rparr>) =
       Inr \<lparr>pages = [VPage [(''location'', VStr ''https://www.mozilla.org/'')]],
            pageOrder = [0], currentPageIndex = 0\<rparr>"
proof -
  have h1: "type ((action_of CLOSE_TAB)\<lparr>pageIndex := 7\<rparr>) = CLOSE_TAB"
    by (simp add: action_of_def)
  have h2: "length (pages \<lparr>pages = [new_Page (VStr ''http://a.com'')], pageOrder = [0],
                            currentPageIndex = 0\<rparr>) = 1"
    by simp
  show ?thesis
    using h1 h2 closeTab_last_page [OF h1 h2] by simp
qed

section \<open>Writing page details\<close>

lemma setIn_pages_Page:
  assumes "List_get (pages s) i = Some (VPage es)" "k \<in> set declared"
  shows "setIn_pages declared s i k v =
         Inr (s\<lparr>pages := (pages s)[nat (wrapIndex (pages s) i) := VPage (AList.update k v es)]\<rparr>)"
proof -
  have "List_has (pages s) i" using assms(1) by (simp add: List_get_Some_iff)
  then show ?thesis
    using assms by (simp add: setIn_pages_def Record_set_def List_set_in_range set_pages_def)
qed


text \<open>
  On a slot that holds a page, with keys the record declares, the loop of
  \<open>setPageDetails\<close> rewrites that slot only: the page gets every pair in turn.
\<close>

lemma setPageDetails_loop_Page:
  assumes "List_get (pages s) i = Some (VPage es)"
      and "list_all (\<lambda>k. k \<in> set declared) (map fst kvs)"
  shows "setPageDetails_loop declared s i kvs =
         Inr (s\<lparr>pages := (pages s)[nat (wrapIndex (pages s) i) :=
                VPage (fold (\<lambda>(k, v). AList.update k v) kvs es)]\<rparr>)"
  using assms
proof (induction kvs arbitrary: s es)
  case Nil
  have "pages s ! nat (wrapIndex (pages s) i) = VPage es"
    using Nil(1) by (simp add: List_get_Some_iff)
  then have "(pages s)[nat (wrapIndex (pages s) i) := VPage es] = pages s"
    by (metis list_update_id)
  then show ?case by simp
next
  case (Cons kv kvs)
  obtain k v where kv: "kv = (k, v)" by (cases kv)
  define j where "j = nat (wrapIndex (pages s) i)"
  define s1 where "s1 = s\<lparr>pages := (pages s)[j := VPage (AList.update k v es)]\<rparr>"
  have has: "List_has (pages s) i" using Cons.prems(1) by (simp add: List_get_Some_iff)
  have k: "k \<in> set declared" using Cons.prems(2) kv by simp
  have step: "setIn_pages declared s i k v = Inr s1"
    unfolding s1_def j_def using Cons.prems(1) k by (rule setIn_pages_Page)
  have p1: "pages s1 = (pages s)[j := VPage (AList.update k v es)]"
    by (simp add: s1_def)
  have get1: "List_get (pages s1) i = Some (VPage (AList.update k v es))"
    unfolding p1 j_def using has by (rule List_get_update_same)
  have rest: "list_all (\<lambda>k. k \<in> set declared) (map fst kvs)"
    using Cons.prems(2) by simp
  have w: "nat (wrapIndex (pages s1) i) = j"
    by (simp add: p1 wrapIndex_update j_def)
  have "setPageDetails_loop declared s i (kv # kvs) = setPageDetails_loop declared s1 i kvs"
    by (simp add: kv step)
  also have "\<dots> = Inr (s1\<lparr>pages := (pages s1)[j :=
                VPage (fold (\<lambda>(k, v). AList.update k v) kvs (AList.update k v es))]\<rparr>)"
    using Cons.IH [OF get1 rest] by (simp only: w)
  also have "\<dots> = Inr (s\<lparr>pages := (pages s)[j :=
                VPage (fold (\<lambda>(k, v). AList.update k v) (kv # kvs) es)]\<rparr>)"
    by (simp add: s1_def kv)
  finally show ?case by (simp only: j_def)
qed







text \<open>
  Claim C8, as stated: for every tab state and every details mapping, \<open>SetPageDetails\<close>
  with \<open>pageIndex = -1\<close> applies the details to the page at \<open>currentPageIndex\<close> and changes
  no other page. Two runs show otherwise. After \<open>SetCurrentTab(-5)\<close> on two tabs there is
  no page at the current index, and \<open>SetPageDetails\<close> extends the list at the front: slot 0
  holds a new map and the two pages have moved to the slots 3 and 4, while \<open>pageOrder\<close>
  still names 0 and 1. And with a key that the page record does not declare, the reducer
  raises and applies nothing.
\<close>

theorem setPageDetails_current_counterexample:
  "dispatch_all named_fields initialState
     [(action_of CREATE_TAB)\<lparr>location := VStr ''http://a.com''\<rparr>,
      (action_of SET_CURRENT_TAB)\<lparr>pageIndex := -5\<rparr>] =
     Inr (two_tabs\<lparr>currentPageIndex := -5\<rparr>)
   \<and> basic named_fields (Some (two_tabs\<lparr>currentPageIndex := -5\<rparr>))
       ((action_of SET_PAGE_DETAILS)\<lparr>pageIndex := -1, details := [(''location'', VStr ''x'')]\<rparr>) =
     Inr \<lparr>pages = [VMap [(''location'', VStr ''x'')], VUndefined, VUndefined,
                   new_Page (VStr HOME_PAGE), new_Page (VStr ''http://a.com'')],
          pageOrder = [0, 1], currentPageIndex = -5\<rparr>
   \<and> basic named_fields (Some two_tabs)
       ((action_of SET_PAGE_DETAILS)\<lparr>pageIndex := -1, details := [(''bogus'', VNum 1)]\<rparr>) =
     Inl (UnknownKey ''bogus'')"
  by (simp add: basic_def action_of_def action_types initialState_def two_tabs_def new_Page_def
      createTab_def List_push_def setCurrentTab_def setPageDetails_def objectEntries_def
      setIn_pages_def set_pages_def Record_set_def named_fields_def List_get_def List_has_def
      wrapIndex_def List_set_def List_limit_def eval_nat_numeral)

text \<open>
  Claim C8, amended. \<open>SetPageDetails\<close> with \<open>pageIndex = -1\<close>, in a state whose current index
  addresses a page and with details whose keys are fields that the page record declares,
  rewrites the slot of the current page and nothing else: the other slots of \<open>pages\<close>,
  \<open>pageOrder\<close> and \<open>currentPageIndex\<close> are those of the input. The entries of the new page
  are those of the old one overridden by the details, the last value of a repeated key
  winning.
\<close>

theorem setPageDetails_current_page_only:
  assumes "type a = SET_PAGE_DETAILS" "pageIndex a = -1"
      and "List_get (pages s) (currentPageIndex s) = Some (VPage es)"
      and "list_all (\<lambda>k. k \<in> set declared) (map fst (details a))"
  shows "\<exists>es'. basic declared (Some s) a =
                 Inr (s\<lparr>pages := (pages s)[nat (wrapIndex (pages s) (currentPageIndex s)) :=
                        VPage es']\<rparr>)
               \<and> map_of es' = map_of es ++ map_of (rev (details a))"
proof -
  have "basic declared (Some s) a = setPageDetails_loop declared s (currentPageIndex s) (details a)"
    using assms(1,2) by (simp add: basic_SET_PAGE_DETAILS setPageDetails_def objectEntries_def)
  then have "basic declared (Some s) a =
      Inr (s\<lparr>pages := (pages s)[nat (wrapIndex (pages s) (currentPageIndex s)) :=
             VPage (fold (\<lambda>(k, v). AList.update k v) (details a) es)]\<rparr>)"
    using setPageDetails_loop_Page [OF assms(3,4)] by simp
  then show ?thesis
    using map_of_fold_update [of "details a" es] by blast
qed

text \<open>
  Two tabs with the second one selected: the details go to the second page, and the
  second value written for \<open>sessionId\<close> is the one that stays.
\<close>

theorem setPageDetails_current_page_only_witness:
  "type ((action_of SET_PAGE_DETAILS)\<lparr>pageIndex := -1,
      details := [(''sessionId'', VNum 1), (''userTyped'', VStr ''x''), (''sessionId'', VNum 2)]\<rparr>)
     = SET_PAGE_DETAILS
   \<and> List_get (pages two_tabs) (currentPageIndex two_tabs) =
       Some (VPage [(''location'', VStr ''http://a.com'')])
   \<and> list_all (\<lambda>k. k \<in> set named_fields) [''sessionId'', ''userTyped'', ''sessionId'']
   \<and> (\<exists>es'. basic named_fields (Some two_tabs) ((action_of SET_PAGE_DETAILS)\<lparr>pageIndex := -1,
         details := [(''sessionId'', VNum 1), (''userTyped'', VStr ''x''), (''sessionId'', VNum 2)]\<rparr>)
        = Inr (two_tabs\<lparr>pages := [new_Page (VStr HOME_PAGE), VPage es']\<rparr>)
        \<and> map_of es' ''location'' = Some (VStr ''http://a.com'')
        \<and> map_of es' ''sessionId'' = Some (VNum 2)
        \<and> map_of es' ''userTyped'' = Some (VStr ''x''))"
proof -
  define a where "a = (action_of SET_PAGE_DETAILS)\<lparr>pageIndex := -1,
      details := [(''sessionId'', VNum 1), (''userTyped'', VStr ''x''), (''sessionId'', VNum 2)]\<rparr>"
  have h1: "type a = SET_PAGE_DETAILS" by (simp add: a_def action_of_def)
  have h2: "pageIndex a = -1" by (simp add: a_def)
  have h3: "List_get (pages two_tabs) (currentPageIndex two_tabs) =
            Some (VPage [(''location'', VStr ''http://a.com'')])"
    by (simp add: two_tabs_def new_Page_def List_get_def List_has_def wrapIndex_def)
  have h4: "list_all (\<lambda>k. k \<in> set named_fields) (map fst (details a))"
    by (simp add: a_def named_fields_def)
  have w: "nat (wrapIndex (pages two_tabs) (currentPageIndex two_tabs)) = 1"
    by (simp add: two_tabs_def wrapIndex_def)
  obtain es' where r: "basic named_fields (Some two_tabs) a =
        Inr (two_tabs\<lparr>pages := (pages two_tabs)[1 := VPage es']\<rparr>)"
      and m: "map_of es' = map_of [(''location'', VStr ''http://a.com'')] ++ map_of (rev (details a))"
    using setPageDetails_current_page_only [OF h1 h2 h3 h4] w by auto
  have "(pages two_tabs)[1 := VPage es'] = [new_Page (VStr HOME_PAGE), VPage es']"
    by (simp add: two_tabs_def)
  moreover have "map_of es' ''location'' = Some (VStr ''http://a.com'')"
    "map_of es' ''sessionId'' = Some (VNum 2)" "map_of es' ''userTyped'' = Some (VStr ''x'')"
    by (simp_all add: m a_def)
  ultimately show ?thesis
    using r h1 h3 h4 by (auto simp: a_def)
qed

section \<open>When the reducer raises\<close>




section \<open>Actions of other types\<close>

text \<open>
  Claim C10. For an action whose type is none of the eight that the reducer knows, the
  reducer returns the state it was given.
\<close>

theorem basic_unrecognized:
  assumes "type a \<notin> {CREATE_TAB, DUPLICATE_TAB, ATTACH_TAB, CLOSE_TAB, SET_LOCATION,
                        SET_PAGE_DETAILS, SET_CURRENT_TAB, SET_PAGE_ORDER}"
  shows "basic declared (Some s) a = Inr s"
  using assms by (simp add: basic_def)

theorem basic_unrecognized_witness:
  "type (action_of ''SET_USER_TYPED'') \<notin> {CREATE_TAB, DUPLICATE_TAB, ATTACH_TAB, CLOSE_TAB,
       SET_LOCATION, SET_PAGE_DETAILS, SET_CURRENT_TAB, SET_PAGE_ORDER}
   \<and> basic named_fields (Some two_tabs) (action_of ''SET_USER_TYPED'') = Inr two_tabs"
proof -
  have h: "type (action_of ''SET_USER_TYPED'') \<notin> {CREATE_TAB, DUPLICATE_TAB, ATTACH_TAB,
       CLOSE_TAB, SET_LOCATION, SET_PAGE_DETAILS, SET_CURRENT_TAB, SET_PAGE_ORDER}"
    by (simp add: action_of_def action_types)
  show ?thesis using h basic_unrecognized [OF h] by simp
qed

end
